theory Spec2Isabelle
  imports Main "HOL-Library.Sublist"
begin

section \<open>Text primitives of the script\<close>

text \<open>
  The script \<^verbatim>\<open>hack/fusion/sync_upstream_and_apply_fusion_patch.py\<close> works on Python
  \<^verbatim>\<open>str\<close> values. A text is modelled as a \<^typ>\<open>string\<close>; one \<^typ>\<open>char\<close> stands for one
  code point below 256, so \<^const>\<open>length\<close> is Python's \<^verbatim>\<open>len\<close> on such texts.
\<close>

definition nl :: char where
  "nl = CHR 0x0A"

definition tab :: char where
  "tab = CHR 0x09"

definition dq :: char where
  "dq = CHR 0x22"

text \<open>\<^verbatim>\<open>s.startswith(p)\<close>\<close>

fun startswith :: "string \<Rightarrow> string \<Rightarrow> bool" where
  "startswith s [] = True"
| "startswith [] (p # ps) = False"
| "startswith (c # cs) (p # ps) = (c = p \<and> startswith cs ps)"

text \<open>\<^verbatim>\<open>sub in s\<close>: the substring test, tried at every position of \<open>s\<close>.\<close>

fun contains :: "string \<Rightarrow> string \<Rightarrow> bool" where
  "contains [] sub = startswith [] sub"
| "contains (c # cs) sub = (startswith (c # cs) sub \<or> contains cs sub)"

text \<open>\<^verbatim>\<open>s.endswith('\n')\<close>: false on the empty text.\<close>

definition endswith_nl :: "string \<Rightarrow> bool" where
  "endswith_nl s = (s \<noteq> [] \<and> last s = nl)"

text \<open>\<^verbatim>\<open>s.split('\n')\<close>: always at least one piece; the pieces hold no newline.\<close>

fun split_lines :: "string \<Rightarrow> string list" where
  "split_lines [] = [[]]"
| "split_lines (c # cs) =
     (if c = nl then [] # split_lines cs
      else (case split_lines cs of [] \<Rightarrow> [[c]] | l # ls \<Rightarrow> (c # l) # ls))"

text \<open>\<^verbatim>\<open>'\n'.join(ls)\<close>\<close>

fun join_lines :: "string list \<Rightarrow> string" where
  "join_lines [] = []"
| "join_lines [l] = l"
| "join_lines (l # m # ls) = l @ nl # join_lines (m # ls)"

section \<open>Outcome of a patch function on the text it has read\<close>

text \<open>
  Once the target file has been read, each of the two patch functions leaves in one of
  three ways: \<^verbatim>\<open>return False\<close> after an error message (\<open>Failed\<close>), \<^verbatim>\<open>return True\<close>
  after the message that the hook is already present, with no write (\<open>Present\<close>), or
  \<^verbatim>\<open>file_path.write_text(content); return True\<close> (\<open>Applied content\<close>).
\<close>

datatype outcome = Failed | Present | Applied string

text \<open>The text of the file after the call, and whether the call changed it.\<close>

fun result_text :: "string \<Rightarrow> outcome \<Rightarrow> string" where
  "result_text t Failed = t"
| "result_text t Present = t"
| "result_text t (Applied t') = t'"

fun changed :: "string \<Rightarrow> outcome \<Rightarrow> bool" where
  "changed t Failed = False"
| "changed t Present = False"
| "changed t (Applied t') = (t' \<noteq> t)"

section \<open>The hook appended to \<^verbatim>\<open>pkg/toolsets/toolsets.go\<close>\<close>

text \<open>The triple-quoted literal \<^verbatim>\<open>fusion_code\<close>: it opens with a newline and every line ends with one.\<close>

definition fusion_code_lines :: "string list" where
  "fusion_code_lines =
    [ [],
      ''func init() {'',
      tab # ''// IBM Fusion extension integration point'',
      tab # ''// This is the single hook for registering IBM Fusion tools'',
      tab # ''// Tools are only registered if FUSION_TOOLS_ENABLED=true'',
      tab # ''registerFusionTools()'',
      ''}'',
      [],
      ''// registerFusionTools is a placeholder that will be implemented by the fusion package'',
      ''// This allows the fusion package to register itself without modifying upstream code'',
      ''var registerFusionTools = func() {}'',
      [],
      ''// SetFusionRegistration allows the fusion package to hook into the registration process'',
      ''// This is the single integration point for IBM Fusion tools'',
      ''func SetFusionRegistration(fn func()) {'',
      tab # ''registerFusionTools = fn'',
      ''}'' ]"

definition fusion_code :: string where
  "fusion_code = concat (map (\<lambda>l. l @ [nl]) fusion_code_lines)"

text \<open>
  \<^verbatim>\<open>apply_toolsets_patch\<close> after \<^verbatim>\<open>content = file_path.read_text()\<close>: the presence test on
  the two marker names, the newline added when the text does not end with one, the
  appended hook.
\<close>

definition toolsets_patch_text :: "string \<Rightarrow> outcome" where
  "toolsets_patch_text content =
     (if contains content ''registerFusionTools'' \<and> contains content ''SetFusionRegistration''
      then Present
      else let content1 = (if \<not> endswith_nl content then content @ [nl] else content)
           in Applied (content1 @ fusion_code))"

section \<open>The import inserted into \<^verbatim>\<open>pkg/mcp/modules.go\<close>\<close>

text \<open>
  Python's whitespace (\<^verbatim>\<open>str.isspace\<close>, the class \<^verbatim>\<open>\s\<close> of a \<^verbatim>\<open>str\<close> pattern) among the
  code points below 256.
\<close>

definition is_space :: "char \<Rightarrow> bool" where
  "is_space c = (c \<in> {CHR 0x09, CHR 0x0A, CHR 0x0B, CHR 0x0C, CHR 0x0D,
                        CHR 0x1C, CHR 0x1D, CHR 0x1E, CHR 0x1F, CHR 0x20, CHR 0x85, CHR 0xA0})"

text \<open>\<^verbatim>\<open>s.rstrip()\<close> and \<^verbatim>\<open>s.strip()\<close>\<close>

definition rstrip :: "string \<Rightarrow> string" where
  "rstrip s = rev (dropWhile is_space (rev s))"

definition strip :: "string \<Rightarrow> string" where
  "strip s = rstrip (dropWhile is_space s)"

text \<open>
  The regular expressions the script needs: a sequence of items, each one a single
  character test, or one repeated by \<^verbatim>\<open>*\<close> or \<^verbatim>\<open>+\<close>. The groups of the pattern capture
  nothing that is used, so they are left out.
\<close>

datatype atom = Lit char | Space | NotChar char

datatype item = One atom | Many atom | Many1 atom

fun atom_ok :: "atom \<Rightarrow> char \<Rightarrow> bool" where
  "atom_ok (Lit a) c = (c = a)"
| "atom_ok Space c = is_space c"
| "atom_ok (NotChar a) c = (c \<noteq> a)"

text \<open>
  A match of the pattern at the start of the text, by backtracking as \<^verbatim>\<open>re\<close> does: a
  repetition first takes one more character and gives it back when the rest fails.
\<close>

fun match_here :: "item list \<Rightarrow> string \<Rightarrow> bool" where
  "match_here [] s = True"
| "match_here (One a # r) [] = False"
| "match_here (One a # r) (c # cs) = (if atom_ok a c then match_here r cs else False)"
| "match_here (Many a # r) [] = match_here r []"
| "match_here (Many a # r) (c # cs) =
     (if atom_ok a c
      then (if match_here (Many a # r) cs then True else match_here r (c # cs))
      else match_here r (c # cs))"
| "match_here (Many1 a # r) [] = False"
| "match_here (Many1 a # r) (c # cs) = (if atom_ok a c then match_here (Many a # r) cs else False)"

text \<open>\<^verbatim>\<open>re.search(p, s)\<close> as a truth value: a match at some position.\<close>

fun re_search :: "item list \<Rightarrow> string \<Rightarrow> bool" where
  "re_search p [] = match_here p []"
| "re_search p (c # cs) = (if match_here p (c # cs) then True else re_search p cs)"

text \<open>\<^verbatim>\<open>import_pattern = r'(import\s*\(\s*\n)(\s*_\s*"[^"]+"\s*\n)'\<close>\<close>

definition import_pattern :: "item list" where
  "import_pattern =
     map (One \<circ> Lit) ''import'' @
     [Many Space, One (Lit (CHR ''('')), Many Space, One (Lit nl),
      Many Space, One (Lit (CHR ''_'')), Many Space, One (Lit dq), Many1 (NotChar dq),
      One (Lit dq), Many Space, One (Lit nl)]"

text \<open>\<^verbatim>\<open>fusion_import = '\t_ "github.com/containers/kubernetes-mcp-server/pkg/toolsets/fusion"\n'\<close>\<close>

definition fusion_import :: string where
  "fusion_import =
     tab # ''_ '' @ dq #
     ''github.com/containers/kubernetes-mcp-server/pkg/toolsets/fusion'' @ [dq, nl]"

text \<open>
  The loop \<^verbatim>\<open>for line in lines\<close> of \<^verbatim>\<open>apply_modules_patch\<close>, with its two flags as
  arguments; the value is \<^verbatim>\<open>new_lines\<close>. Each \<^verbatim>\<open>continue\<close> of the source is a branch
  that goes on with the rest of the lines.
\<close>

fun rebuild_lines :: "bool \<Rightarrow> bool \<Rightarrow> string list \<Rightarrow> string list" where
  "rebuild_lines in_import_block import_added [] = []"
| "rebuild_lines in_import_block import_added (line # rest) =
     (if contains line ''import (''
        then line # rebuild_lines True import_added rest
      else if in_import_block \<and> \<not> import_added \<and> contains line ''pkg/toolsets/core''
        then line # rstrip fusion_import # rebuild_lines in_import_block True rest
      else if in_import_block \<and> \<not> import_added \<and> contains line ''pkg/toolsets/helm''
              \<and> \<not> import_added
        then rstrip fusion_import # line # rebuild_lines in_import_block True rest
      else if contains line '')'' \<and> in_import_block
        then line # rebuild_lines False import_added rest
      else line # rebuild_lines in_import_block import_added rest)"

text \<open>
  \<^verbatim>\<open>apply_modules_patch\<close> after \<^verbatim>\<open>content = file_path.read_text()\<close>: the presence test,
  the test for the import block, the rebuilt text that is written whether or not the loop
  has added the import.
\<close>

definition modules_patch_text :: "string \<Rightarrow> outcome" where
  "modules_patch_text content =
     (if contains content ''pkg/toolsets/fusion'' then Present
      else if \<not> re_search import_pattern content then Failed
      else Applied (join_lines (rebuild_lines False False (split_lines content))))"

text \<open>
  Where a line stands with respect to the import blocks, in the words of the loop: the
  value of \<^verbatim>\<open>in_import_block\<close> after a run of lines none of which received the import,
  and the lines inside a block, those reached with the flag set that do not open a block
  themselves. A line that closes the block is still inside it.
\<close>

fun block_flag :: "bool \<Rightarrow> string list \<Rightarrow> bool" where
  "block_flag b [] = b"
| "block_flag b (line # rest) =
     block_flag (if contains line ''import ('' then True
                 else if contains line '')'' \<and> b then False
                 else b) rest"

definition inside_import_block :: "string list \<Rightarrow> nat \<Rightarrow> bool" where
  "inside_import_block ls i =
     (i < length ls \<and> block_flag False (take i ls) \<and> \<not> contains (ls ! i) ''import ('')"

definition is_anchor :: "string \<Rightarrow> bool" where
  "is_anchor line = (contains line ''pkg/toolsets/core'' \<or> contains line ''pkg/toolsets/helm'')"

section \<open>Files, commands and the stages of the script\<close>

text \<open>
  The state the script acts on: the files of the working tree by path, the calls of
  \<^verbatim>\<open>write_text\<close> made so far and the shell commands run so far, both in order.
\<close>

record state =
  files :: "string \<rightharpoonup> string"
  writes :: "(string \<times> string) list"
  commands :: "string list"

text \<open>
  The two ways a call can leave other than by returning: \<^verbatim>\<open>sys.exit(n)\<close> and the
  \<^verbatim>\<open>CalledProcessError\<close> that \<^verbatim>\<open>run_command\<close> raises again.
\<close>

datatype exn = SystemExit int | CalledProcessError

type_synonym 'a action = "state \<Rightarrow> (exn + 'a) \<times> state"

definition ret :: "'a \<Rightarrow> 'a action" where
  "ret x s = (Inr x, s)"

definition raise :: "exn \<Rightarrow> 'a action" where
  "raise e s = (Inl e, s)"

definition bind :: "'a action \<Rightarrow> ('a \<Rightarrow> 'b action) \<Rightarrow> 'b action" where
  "bind m f s = (case m s of (Inl e, s') \<Rightarrow> (Inl e, s') | (Inr x, s') \<Rightarrow> f x s')"

definition write_text :: "string \<Rightarrow> string \<Rightarrow> unit action" where
  "write_text path content s =
     (Inr (), s\<lparr>files := (files s)(path \<mapsto> content), writes := writes s @ [(path, content)]\<rparr>)"

text \<open>
  The part the two patch functions share: the test that the file exists, the read, and
  the write of the new text when there is one.
\<close>

definition patch_file :: "string \<Rightarrow> (string \<Rightarrow> outcome) \<Rightarrow> bool action" where
  "patch_file path patch_text s =
     (case files s path of
        None \<Rightarrow> ret False s
      | Some content \<Rightarrow>
          (case patch_text content of
             Failed \<Rightarrow> ret False s
           | Present \<Rightarrow> ret True s
           | Applied content' \<Rightarrow> bind (write_text path content') (\<lambda>_. ret True) s))"

definition apply_toolsets_patch :: "bool action" where
  "apply_toolsets_patch = patch_file ''pkg/toolsets/toolsets.go'' toolsets_patch_text"

definition apply_modules_patch :: "bool action" where
  "apply_modules_patch = patch_file ''pkg/mcp/modules.go'' modules_patch_text"

text \<open>
  What a shell command gives back, and the surroundings of one run of the script: the
  result of each command at the place where it is run, and the working tree as the patch
  stage finds it. The commands act on the repository, which is outside the model.
\<close>

record cmd_result =
  returncode :: int
  stdout :: string

record world =
  git_status_pre :: cmd_result
  git_remote_v :: cmd_result
  git_remote_add :: cmd_result
  git_fetch :: cmd_result
  git_checkout :: cmd_result
  git_merge :: cmd_result
  worktree :: "string \<rightharpoonup> string"
  go_test :: cmd_result
  git_status_post :: cmd_result
  git_add :: cmd_result
  git_commit :: cmd_result
  git_push :: cmd_result

text \<open>\<^verbatim>\<open>run_command(cmd, check)\<close>: with \<^verbatim>\<open>check\<close>, a non-zero return code raises.\<close>

definition run_command :: "string \<Rightarrow> bool \<Rightarrow> cmd_result \<Rightarrow> cmd_result action" where
  "run_command cmd check r s =
     (let s' = s\<lparr>commands := commands s @ [cmd]\<rparr>
      in if check \<and> returncode r \<noteq> 0 then raise CalledProcessError s' else ret r s')"

definition check_git_clean :: "world \<Rightarrow> bool \<Rightarrow> bool action" where
  "check_git_clean w force =
     bind (run_command ''git status --porcelain'' True (git_status_pre w)) (\<lambda>result.
       if strip (stdout result) \<noteq> []
       then (if force then ret True else ret False)
       else ret True)"

definition check_remotes :: "world \<Rightarrow> bool action" where
  "check_remotes w =
     bind (run_command ''git remote -v'' True (git_remote_v w)) (\<lambda>result.
       let remotes = stdout result;
           has_origin = (contains remotes ''origin''
                         \<and> contains remotes ''sandeepbazar/ibm-fusion-mcp-server'');
           has_upstream = (contains remotes ''upstream''
                           \<and> contains remotes ''containers/kubernetes-mcp-server'')
       in if \<not> has_origin then ret False
          else bind (if \<not> has_upstream
                     then bind (run_command
                                  ''git remote add upstream https://github.com/containers/kubernetes-mcp-server.git''
                                  True (git_remote_add w)) (\<lambda>_. ret ())
                     else ret ())
                 (\<lambda>_. ret True))"

definition sync_upstream :: "world \<Rightarrow> unit action" where
  "sync_upstream w =
     bind (run_command ''git fetch upstream'' True (git_fetch w)) (\<lambda>_.
     bind (run_command ''git checkout main'' True (git_checkout w)) (\<lambda>_.
     bind (run_command ''git merge upstream/main'' False (git_merge w)) (\<lambda>result.
       if returncode result \<noteq> 0 then raise (SystemExit 1) else ret ())))"

definition run_tests :: "world \<Rightarrow> bool action" where
  "run_tests w =
     bind (run_command ''go test ./...'' False (go_test w)) (\<lambda>result.
       if returncode result \<noteq> 0 then ret False else ret True)"

definition commit_msg :: string where
  "commit_msg = ''chore(fusion): sync upstream and apply fusion integration hooks''"

definition commit_and_push :: "world \<Rightarrow> bool action" where
  "commit_and_push w =
     bind (run_command ''git status --porcelain'' True (git_status_post w)) (\<lambda>result.
       if \<not> (strip (stdout result) \<noteq> []) then ret True
       else
         bind (run_command ''git add -A'' True (git_add w)) (\<lambda>_.
         bind (run_command (''git commit -m '' @ dq # commit_msg @ [dq]) True (git_commit w)) (\<lambda>_.
         bind (run_command ''git push origin main'' False (git_push w)) (\<lambda>result.
           if returncode result \<noteq> 0 then ret False else ret True))))"

text \<open>The step \<^verbatim>\<open>if not stage(): sys.exit(1)\<close> of \<^verbatim>\<open>main\<close>, followed by the rest.\<close>

definition guard :: "bool action \<Rightarrow> unit action \<Rightarrow> unit action" where
  "guard stage rest = bind stage (\<lambda>ok. if \<not> ok then raise (SystemExit 1) else rest)"

text \<open>\<^verbatim>\<open>main\<close>, with \<^verbatim>\<open>sys.argv\<close> as argument.\<close>

definition main :: "world \<Rightarrow> string list \<Rightarrow> unit action" where
  "main w argv =
     (let force = (''--force'' \<in> set argv) in
      guard (check_git_clean w force)
     (guard (check_remotes w)
     (bind (sync_upstream w) (\<lambda>_.
      guard apply_toolsets_patch
     (guard apply_modules_patch
     (guard (run_tests w)
     (guard (commit_and_push w)
     (ret ()))))))))"

text \<open>
  The block under \<^verbatim>\<open>if __name__ == "__main__"\<close>: the exit code of the process and the
  state it leaves. A return of \<^verbatim>\<open>main\<close> is exit code 0, \<^verbatim>\<open>sys.exit(n)\<close> passes through
  both handlers, any other exception is turned into \<^verbatim>\<open>sys.exit(1)\<close>.
\<close>

fun exit_code :: "exn + unit \<Rightarrow> int" where
  "exit_code (Inr _) = 0"
| "exit_code (Inl (SystemExit n)) = n"
| "exit_code (Inl CalledProcessError) = 1"

definition initial :: "world \<Rightarrow> state" where
  "initial w = \<lparr>files = worktree w, writes = [], commands = []\<rparr>"

definition script :: "world \<Rightarrow> string list \<Rightarrow> int \<times> state" where
  "script w argv = (case main w argv (initial w) of (r, s) \<Rightarrow> (exit_code r, s))"

section \<open>Applying a rule twice, and texts to run the rules on\<close>

text \<open>The outcome of a second call of a patch function on the text the first call leaves.\<close>

definition reapplied :: "(string \<Rightarrow> outcome) \<Rightarrow> string \<Rightarrow> outcome" where
  "reapplied patch_text t = patch_text (result_text t (patch_text t))"

text \<open>A blank import of the package \<open>p\<close> as \<^verbatim>\<open>gofmt\<close> lays it out.\<close>

definition import_entry :: "string \<Rightarrow> string" where
  "import_entry p = tab # ''_ '' @ dq # p @ [dq]"

text \<open>An import block whose only entry is neither \<^verbatim>\<open>core\<close> nor \<^verbatim>\<open>helm\<close>.\<close>

definition modules_config_only :: string where
  "modules_config_only = join_lines
     [''package mcp'',
      [],
      ''import ('',
      import_entry ''github.com/containers/kubernetes-mcp-server/pkg/toolsets/config'',
      '')'',
      []]"

text \<open>An import block that lists \<^verbatim>\<open>helm\<close> before \<^verbatim>\<open>core\<close>.\<close>

definition modules_helm_then_core :: string where
  "modules_helm_then_core = join_lines
     [''import ('',
      import_entry ''k/pkg/toolsets/helm'',
      import_entry ''k/pkg/toolsets/core'',
      '')'']"

text \<open>
  Three more import blocks: one with a \<^verbatim>\<open>core\<close> entry only, one with a \<^verbatim>\<open>helm\<close> entry
  only, and one with a \<^verbatim>\<open>core\<close> entry that is never closed.
\<close>

definition modules_core_only :: string where
  "modules_core_only = join_lines
     [''import ('',
      import_entry ''k/pkg/toolsets/core'',
      '')'']"

definition modules_helm_only :: string where
  "modules_helm_only = join_lines
     [''import ('',
      import_entry ''k/pkg/toolsets/helm'',
      '')'']"

definition modules_unclosed :: string where
  "modules_unclosed = join_lines
     [''import ('',
      import_entry ''k/pkg/toolsets/core'',
      []]"

section \<open>The commands of the stages before the patches\<close>

text \<open>
  The commands of the stages that come before the patches, in the order in which
  \<^verbatim>\<open>main\<close> can run them, and a run from one state to another that touches no file and
  adds to the commands run a selection of a given list, in its order.
\<close>

definition early_commands :: "string list" where
  "early_commands =
     [''git status --porcelain'', ''git remote -v'',
      ''git remote add upstream https://github.com/containers/kubernetes-mcp-server.git'',
      ''git fetch upstream'', ''git checkout main'', ''git merge upstream/main'']"

definition ran_only :: "state \<Rightarrow> string list \<Rightarrow> state \<Rightarrow> bool" where
  "ran_only s l s' =
     (files s' = files s \<and> writes s' = writes s
      \<and> (\<exists>cs. commands s' = commands s @ cs \<and> subseq cs l))"

text \<open>
  Surroundings in which every stage succeeds: \<^verbatim>\<open>origin\<close> is the expected remote,
  \<^verbatim>\<open>upstream\<close> is not there yet and is added, both target files exist, the tests pass and
  the push goes through.
\<close>

definition ok_result :: cmd_result where
  "ok_result = \<lparr>returncode = 0, stdout = []\<rparr>"

definition quiet_world :: world where
  "quiet_world =
     \<lparr>git_status_pre = ok_result,
      git_remote_v = \<lparr>returncode = 0,
                      stdout = ''origin git@github.com:sandeepbazar/ibm-fusion-mcp-server.git (fetch)''\<rparr>,
      git_remote_add = ok_result,
      git_fetch = ok_result,
      git_checkout = ok_result,
      git_merge = ok_result,
      worktree = [''pkg/toolsets/toolsets.go'' \<mapsto> ''package toolsets'',
                  ''pkg/mcp/modules.go'' \<mapsto> modules_core_only],
      go_test = ok_result,
      git_status_post = \<lparr>returncode = 0, stdout = '' M pkg/mcp/modules.go''\<rparr>,
      git_add = ok_result,
      git_commit = ok_result,
      git_push = ok_result\<rparr>"

text \<open>
  Surroundings in which both remotes are set up, every command succeeds and
  \<^verbatim>\<open>toolsets.go\<close> still lacks the hook, while the import block of \<^verbatim>\<open>modules.go\<close> has
  neither a \<^verbatim>\<open>core\<close> nor a \<^verbatim>\<open>helm\<close> entry.
\<close>

definition no_anchor_world :: world where
  "no_anchor_world =
     \<lparr>git_status_pre = ok_result,
      git_remote_v = \<lparr>returncode = 0,
                      stdout = ''origin git@github.com:sandeepbazar/ibm-fusion-mcp-server.git (fetch)''
                               @ nl # ''upstream https://github.com/containers/kubernetes-mcp-server.git (fetch)''\<rparr>,
      git_remote_add = ok_result,
      git_fetch = ok_result,
      git_checkout = ok_result,
      git_merge = ok_result,
      worktree = [''pkg/toolsets/toolsets.go'' \<mapsto> ''package toolsets'',
                  ''pkg/mcp/modules.go'' \<mapsto> modules_config_only],
      go_test = ok_result,
      git_status_post = \<lparr>returncode = 0, stdout = '' M pkg/toolsets/toolsets.go''\<rparr>,
      git_add = ok_result,
      git_commit = ok_result,
      git_push = ok_result\<rparr>"

text \<open>
  The output of \<^verbatim>\<open>git remote -v\<close> when \<^verbatim>\<open>origin\<close> points to another repository and a
  remote of another name points to the expected one.
\<close>

definition stray_origin_remotes :: string where
  "stray_origin_remotes =
     ''origin git@github.com:someone/fork.git (fetch)''
     @ nl # ''mirror git@github.com:sandeepbazar/ibm-fusion-mcp-server.git (fetch)''
     @ nl # ''upstream https://github.com/containers/kubernetes-mcp-server.git (fetch)''"

section \<open>Facts about the text primitives\<close>

lemmas text_eval = nl_def dq_def tab_def is_space_def rstrip_def strip_def fusion_import_def
  import_pattern_def import_entry_def

lemma startswith_iff: "startswith s p \<longleftrightarrow> (\<exists>r. s = p @ r)"
  by (induction s p rule: startswith.induct) auto

lemma contains_iff: "contains s sub \<longleftrightarrow> (\<exists>pre post. s = pre @ sub @ post)"
proof (induction s)
  case Nil
  show ?case by (auto simp: startswith_iff)
next
  case (Cons c cs)
  show ?case
  proof
    assume "contains (c # cs) sub"
    then consider "startswith (c # cs) sub" | "contains cs sub" by auto
    then show "\<exists>pre post. c # cs = pre @ sub @ post"
    proof cases
      case 1
      then obtain r where "c # cs = sub @ r" by (auto simp: startswith_iff)
      then have "c # cs = [] @ sub @ r" by simp
      then show ?thesis by blast
    next
      case 2
      with Cons obtain pre post where "cs = pre @ sub @ post" by blast
      then have "c # cs = (c # pre) @ sub @ post" by simp
      then show ?thesis by blast
    qed
  next
    assume "\<exists>pre post. c # cs = pre @ sub @ post"
    then obtain pre post where e: "c # cs = pre @ sub @ post" by blast
    show "contains (c # cs) sub"
    proof (cases pre)
      case Nil
      with e have "startswith (c # cs) sub" by (auto simp: startswith_iff)
      then show ?thesis by simp
    next
      case (Cons a pre')
      with e have "cs = pre' @ sub @ post" by simp
      with Cons.IH have "contains cs sub" by blast
      then show ?thesis by simp
    qed
  qed
qed

lemma contains_append_right: "contains b sub \<Longrightarrow> contains (a @ b) sub"
proof -
  assume "contains b sub"
  then obtain pre post where "b = pre @ sub @ post" by (auto simp: contains_iff)
  then have "a @ b = (a @ pre) @ sub @ post" by simp
  then show ?thesis unfolding contains_iff by blast
qed

lemma contains_append_left: "contains a sub \<Longrightarrow> contains (a @ b) sub"
proof -
  assume "contains a sub"
  then obtain pre post where "a = pre @ sub @ post" by (auto simp: contains_iff)
  then have "a @ b = pre @ sub @ (post @ b)" by simp
  then show ?thesis unfolding contains_iff by blast
qed

lemma split_lines_nonempty: "split_lines s \<noteq> []"
  by (induction s) (auto split: list.splits)

lemma join_split: "join_lines (split_lines s) = s"
proof (induction s)
  case Nil
  show ?case by simp
next
  case (Cons c cs)
  obtain l ls where e: "split_lines cs = l # ls"
    using split_lines_nonempty [of cs] by (cases "split_lines cs") auto
  show ?case
  proof (cases "c = nl")
    case True
    with Cons e show ?thesis by simp
  next
    case False
    with Cons e show ?thesis by (cases ls) auto
  qed
qed

lemma split_lines_no_nl: "l \<in> set (split_lines s) \<Longrightarrow> nl \<notin> set l"
proof (induction s arbitrary: l)
  case Nil
  then show ?case by simp
next
  case (Cons c cs)
  obtain m ms where e: "split_lines cs = m # ms"
    using split_lines_nonempty [of cs] by (cases "split_lines cs") auto
  have m: "nl \<notin> set m" and ms: "\<And>x. x \<in> set ms \<Longrightarrow> nl \<notin> set x"
    using Cons.IH e by auto
  show ?case
  proof (cases "c = nl")
    case True
    with Cons.prems e m ms show ?thesis by auto
  next
    case False
    with Cons.prems e m ms show ?thesis by auto
  qed
qed

lemma split_line_no_nl: "nl \<notin> set l \<Longrightarrow> split_lines l = [l]"
  by (induction l) auto

lemma split_append_nl: "nl \<notin> set l \<Longrightarrow> split_lines (l @ nl # r) = l # split_lines r"
  by (induction l) auto

lemma split_join:
  "ls \<noteq> [] \<Longrightarrow> (\<And>l. l \<in> set ls \<Longrightarrow> nl \<notin> set l) \<Longrightarrow> split_lines (join_lines ls) = ls"
proof (induction ls rule: join_lines.induct)
  case 1
  then show ?case by simp
next
  case (2 l)
  then show ?case by (simp add: split_line_no_nl)
next
  case (3 l m ls)
  have "split_lines (join_lines (m # ls)) = m # ls"
    using 3 by simp
  moreover have "nl \<notin> set l" using 3 by simp
  ultimately show ?case by (simp add: split_append_nl)
qed

lemma contains_join: "l \<in> set ls \<Longrightarrow> contains l sub \<Longrightarrow> contains (join_lines ls) sub"
proof (induction ls rule: join_lines.induct)
  case 1
  then show ?case by simp
next
  case (2 l')
  then show ?case by simp
next
  case (3 l' m ls)
  show ?case
  proof (cases "l = l'")
    case True
    with 3 show ?thesis by (simp del: contains.simps add: contains_append_left)
  next
    case False
    with 3 have "contains (join_lines (m # ls)) sub" by simp
    then have "contains (l' @ [nl] @ join_lines (m # ls)) sub"
      by (intro contains_append_right)
    then show ?thesis by simp
  qed
qed

section \<open>Facts about the loop that rebuilds the lines\<close>

lemma fusion_line: "rstrip fusion_import =
   tab # ''_ '' @ dq # ''github.com/containers/kubernetes-mcp-server/pkg/toolsets/fusion'' @ [dq]"
  by (simp add: rstrip_def fusion_import_def is_space_def nl_def dq_def tab_def)

lemma fusion_line_no_nl: "nl \<notin> set (rstrip fusion_import)"
  by (simp add: fusion_line nl_def dq_def tab_def)

lemma fusion_line_marker: "contains (rstrip fusion_import) ''pkg/toolsets/fusion''"
  by (simp add: fusion_line dq_def tab_def)

lemma rebuild_added: "rebuild_lines b True ls = ls"
  by (induction ls arbitrary: b) auto

lemma rebuild_same_or_inserted:
  "rebuild_lines b a ls = ls \<or> rstrip fusion_import \<in> set (rebuild_lines b a ls)"
  by (induction ls arbitrary: b a) (auto simp: rebuild_added)

lemma rebuild_no_nl:
  "(\<And>l. l \<in> set ls \<Longrightarrow> nl \<notin> set l) \<Longrightarrow> l \<in> set (rebuild_lines b a ls) \<Longrightarrow> nl \<notin> set l"
proof (induction ls arbitrary: b a)
  case Nil
  then show ?case by simp
next
  case (Cons x xs)
  have ih: "\<And>b a. l \<in> set (rebuild_lines b a xs) \<Longrightarrow> nl \<notin> set l"
    using Cons.IH Cons.prems(1) by simp
  have x: "nl \<notin> set x" using Cons.prems(1) by simp
  from Cons.prems(2) show ?case
    using ih x fusion_line_no_nl by (auto split: if_splits)
qed

lemma rebuild_nonempty: "ls \<noteq> [] \<Longrightarrow> rebuild_lines b a ls \<noteq> []"
  by (cases ls) auto

lemma rebuild_at_first_anchor:
  assumes "i < length ls"
    and "block_flag b (take i ls)"
    and "\<not> contains (ls ! i) ''import (''"
    and "is_anchor (ls ! i)"
    and "\<And>j. j < i \<Longrightarrow>
           \<not> (block_flag b (take j ls) \<and> \<not> contains (ls ! j) ''import ('' \<and> is_anchor (ls ! j))"
  shows "rebuild_lines b False ls =
           take i ls
           @ (if contains (ls ! i) ''pkg/toolsets/core''
              then [ls ! i, rstrip fusion_import] else [rstrip fusion_import, ls ! i])
           @ drop (Suc i) ls"
  using assms
proof (induction ls arbitrary: b i)
  case Nil
  then show ?case by simp
next
  case (Cons x xs)
  show ?case
  proof (cases i)
    case 0
    with Cons.prems show ?thesis
      by (auto simp: is_anchor_def rebuild_added)
  next
    case (Suc k)
    define b' where "b' = (if contains x ''import ('' then True
                           else if contains x '')'' \<and> b then False else b)"
    have first: "\<not> (b \<and> \<not> contains x ''import ('' \<and> is_anchor x)"
      using Cons.prems(5) [of 0] Suc by simp
    have step: "rebuild_lines b False (x # xs) = x # rebuild_lines b' False xs"
      using first by (auto simp: b'_def is_anchor_def)
    have k: "k < length xs" using Cons.prems(1) Suc by simp
    have flag: "block_flag b' (take k xs)"
      using Cons.prems(2) Suc by (simp add: b'_def)
    have noimp: "\<not> contains (xs ! k) ''import (''" and anc: "is_anchor (xs ! k)"
      using Cons.prems(3,4) Suc by simp_all
    have earlier: "\<And>j. j < k \<Longrightarrow>
        \<not> (block_flag b' (take j xs) \<and> \<not> contains (xs ! j) ''import ('' \<and> is_anchor (xs ! j))"
    proof -
      fix j assume "j < k"
      then have "Suc j < i" using Suc by simp
      from Cons.prems(5) [OF this] show
        "\<not> (block_flag b' (take j xs) \<and> \<not> contains (xs ! j) ''import ('' \<and> is_anchor (xs ! j))"
        by (simp add: b'_def)
    qed
    from Cons.IH [OF k flag noimp anc earlier] step Suc show ?thesis by simp
  qed
qed

lemma rebuild_no_anchor:
  assumes "\<And>j. j < length ls \<Longrightarrow>
           \<not> (block_flag b (take j ls) \<and> \<not> contains (ls ! j) ''import ('' \<and> is_anchor (ls ! j))"
  shows "rebuild_lines b False ls = ls"
  using assms
proof (induction ls arbitrary: b)
  case Nil
  show ?case by simp
next
  case (Cons x xs)
  define b' where "b' = (if contains x ''import ('' then True
                         else if contains x '')'' \<and> b then False else b)"
  have first: "\<not> (b \<and> \<not> contains x ''import ('' \<and> is_anchor x)"
    using Cons.prems [of 0] by simp
  have step: "rebuild_lines b False (x # xs) = x # rebuild_lines b' False xs"
    using first by (auto simp: b'_def is_anchor_def)
  have "\<And>j. j < length xs \<Longrightarrow>
        \<not> (block_flag b' (take j xs) \<and> \<not> contains (xs ! j) ''import ('' \<and> is_anchor (xs ! j))"
  proof -
    fix j assume "j < length xs"
    then have "Suc j < length (x # xs)" by simp
    from Cons.prems [OF this] show
      "\<not> (block_flag b' (take j xs) \<and> \<not> contains (xs ! j) ''import ('' \<and> is_anchor (xs ! j))"
      by (simp add: b'_def)
  qed
  from Cons.IH [OF this] step show ?case by simp
qed

text \<open>The first anchor line inside an import block, when there is one.\<close>

lemma first_anchor_exists:
  assumes "rebuild_lines False False ls \<noteq> ls"
  shows "\<exists>i. inside_import_block ls i \<and> is_anchor (ls ! i)
             \<and> (\<forall>j<i. \<not> (inside_import_block ls j \<and> is_anchor (ls ! j)))"
proof -
  let ?P = "\<lambda>j. inside_import_block ls j \<and> is_anchor (ls ! j)"
  have "\<exists>j. ?P j"
  proof (rule ccontr)
    assume "\<not> (\<exists>j. ?P j)"
    then have "\<And>j. j < length ls \<Longrightarrow>
        \<not> (block_flag False (take j ls) \<and> \<not> contains (ls ! j) ''import ('' \<and> is_anchor (ls ! j))"
      by (auto simp: inside_import_block_def)
    from rebuild_no_anchor [OF this] assms show False by simp
  qed
  then obtain j where "?P j" ..
  then have "?P (LEAST j. ?P j)" by (rule LeastI)
  moreover have "\<forall>j<(LEAST j. ?P j). \<not> ?P j"
    using not_less_Least by blast
  ultimately show ?thesis by blast
qed

lemma rebuild_inside_block:
  assumes "inside_import_block ls i" and "is_anchor (ls ! i)"
    and "\<forall>j<i. \<not> (inside_import_block ls j \<and> is_anchor (ls ! j))"
  shows "rebuild_lines False False ls =
           take i ls
           @ (if contains (ls ! i) ''pkg/toolsets/core''
              then [ls ! i, rstrip fusion_import] else [rstrip fusion_import, ls ! i])
           @ drop (Suc i) ls"
proof (rule rebuild_at_first_anchor)
  show "i < length ls" "block_flag False (take i ls)" "\<not> contains (ls ! i) ''import (''"
    using assms(1) by (simp_all add: inside_import_block_def)
  show "is_anchor (ls ! i)" by (rule assms(2))
  fix j assume "j < i"
  with assms(1,3) show
    "\<not> (block_flag False (take j ls) \<and> \<not> contains (ls ! j) ''import ('' \<and> is_anchor (ls ! j))"
    by (auto simp: inside_import_block_def)
qed

section \<open>The appended hook: length of the result\<close>

text \<open>
  C6. Whenever \<^verbatim>\<open>apply_toolsets_patch\<close> writes a new text, its length is the length of
  the text read, plus the length of the hook block, plus one for the newline that is added
  exactly when the text read does not end with a newline.
\<close>

theorem toolsets_patch_length:
  "toolsets_patch_text content = Applied content' \<Longrightarrow>
   length content' =
     length content + length fusion_code + (if endswith_nl content then 0 else 1)"
  by (auto simp: toolsets_patch_text_def Let_def split: if_splits)

theorem toolsets_patch_length_witness:
  "toolsets_patch_text ''package toolsets'' = Applied (''package toolsets'' @ [nl] @ fusion_code) \<and>
   length (''package toolsets'' @ [nl] @ fusion_code) =
     length ''package toolsets'' + length fusion_code
       + (if endswith_nl ''package toolsets'' then 0 else 1)"
proof -
  have a: "toolsets_patch_text ''package toolsets'' = Applied (''package toolsets'' @ [nl] @ fusion_code)"
    by (simp add: toolsets_patch_text_def endswith_nl_def nl_def)
  from toolsets_patch_length [OF a] a show ?thesis by blast
qed

section \<open>Idempotence of the two rules\<close>

lemma fusion_code_markers:
  "contains fusion_code ''registerFusionTools''" "contains fusion_code ''SetFusionRegistration''"
  by (simp_all add: fusion_code_def fusion_code_lines_def nl_def tab_def)

lemma toolsets_reapplied: "reapplied toolsets_patch_text t = Present"
proof (cases "contains t ''registerFusionTools'' \<and> contains t ''SetFusionRegistration''")
  case True
  then show ?thesis by (simp add: reapplied_def toolsets_patch_text_def)
next
  case False
  define t1 where "t1 = (if \<not> endswith_nl t then t @ [nl] else t)"
  have first: "toolsets_patch_text t = Applied (t1 @ fusion_code)"
    using False by (simp add: toolsets_patch_text_def t1_def)
  have "contains (t1 @ fusion_code) ''registerFusionTools''"
    and "contains (t1 @ fusion_code) ''SetFusionRegistration''"
    by (rule contains_append_right, rule fusion_code_markers)+
  then have "toolsets_patch_text (t1 @ fusion_code) = Present"
    by (simp add: toolsets_patch_text_def)
  with first show ?thesis by (simp add: reapplied_def)
qed

lemma split_rebuilt:
  "split_lines (join_lines (rebuild_lines b a (split_lines t))) = rebuild_lines b a (split_lines t)"
proof (rule split_join)
  show "rebuild_lines b a (split_lines t) \<noteq> []"
    by (rule rebuild_nonempty) (rule split_lines_nonempty)
  fix l assume "l \<in> set (rebuild_lines b a (split_lines t))"
  then show "nl \<notin> set l"
    by (rule rebuild_no_nl [rotated]) (rule split_lines_no_nl)
qed

lemma modules_changed_inserted:
  assumes "modules_patch_text t = Applied t'" and "t' \<noteq> t"
  shows "rstrip fusion_import \<in> set (rebuild_lines False False (split_lines t))"
    and "rebuild_lines False False (split_lines t) \<noteq> split_lines t"
proof -
  have t': "t' = join_lines (rebuild_lines False False (split_lines t))"
    using assms(1) by (simp add: modules_patch_text_def split: if_splits)
  show ne: "rebuild_lines False False (split_lines t) \<noteq> split_lines t"
  proof
    assume "rebuild_lines False False (split_lines t) = split_lines t"
    with t' have "t' = t" by (simp add: join_split)
    with assms(2) show False by simp
  qed
  with rebuild_same_or_inserted [of False False "split_lines t"]
  show "rstrip fusion_import \<in> set (rebuild_lines False False (split_lines t))" by blast
qed

lemma modules_reapplied_after_change:
  assumes "changed t (modules_patch_text t)"
  shows "reapplied modules_patch_text t = Present"
proof -
  from assms obtain t' where a: "modules_patch_text t = Applied t'" and ne: "t' \<noteq> t"
    by (cases "modules_patch_text t") auto
  have t': "t' = join_lines (rebuild_lines False False (split_lines t))"
    using a by (simp add: modules_patch_text_def split: if_splits)
  have "contains t' ''pkg/toolsets/fusion''"
    unfolding t' using modules_changed_inserted(1) [OF a ne] fusion_line_marker
    by (rule contains_join)
  then have "modules_patch_text t' = Present" by (simp add: modules_patch_text_def)
  with a show ?thesis by (simp add: reapplied_def)
qed

lemma modules_reapplied_text:
  "result_text (result_text t (modules_patch_text t)) (reapplied modules_patch_text t)
     = result_text t (modules_patch_text t)"
proof (cases "changed t (modules_patch_text t)")
  case True
  then show ?thesis by (simp add: modules_reapplied_after_change)
next
  case False
  then have "result_text t (modules_patch_text t) = t"
    by (cases "modules_patch_text t") auto
  then show ?thesis by (simp add: reapplied_def)
qed

text \<open>
  C1. For both rules a second application leaves the text of the first: on
  \<^verbatim>\<open>toolsets.go\<close> the second call always takes the path of the hook already present; on
  \<^verbatim>\<open>modules.go\<close> the text after the second call is the text after the first, the second
  call does not change it, and it takes the path of the import already present whenever
  the first call changed the text. A text that holds the markers of a rule anywhere is
  left as it is.
\<close>

theorem patch_idempotent:
  "reapplied toolsets_patch_text t = Present
   \<and> result_text (result_text t (toolsets_patch_text t)) (reapplied toolsets_patch_text t)
       = result_text t (toolsets_patch_text t)
   \<and> \<not> changed (result_text t (toolsets_patch_text t)) (reapplied toolsets_patch_text t)
   \<and> result_text (result_text t (modules_patch_text t)) (reapplied modules_patch_text t)
       = result_text t (modules_patch_text t)
   \<and> \<not> changed (result_text t (modules_patch_text t)) (reapplied modules_patch_text t)
   \<and> (changed t (modules_patch_text t) \<longrightarrow> reapplied modules_patch_text t = Present)
   \<and> (contains t ''registerFusionTools'' \<and> contains t ''SetFusionRegistration''
        \<longrightarrow> toolsets_patch_text t = Present)
   \<and> (contains t ''pkg/toolsets/fusion'' \<longrightarrow> modules_patch_text t = Present)"
proof -
  have a: "reapplied toolsets_patch_text t = Present" by (rule toolsets_reapplied)
  have b: "result_text (result_text t (modules_patch_text t)) (reapplied modules_patch_text t)
             = result_text t (modules_patch_text t)"
    by (rule modules_reapplied_text)
  have c: "\<not> changed (result_text t (modules_patch_text t)) (reapplied modules_patch_text t)"
    using b by (cases "reapplied modules_patch_text t") auto
  show ?thesis
    using a b c modules_reapplied_after_change [of t]
    by (simp add: toolsets_patch_text_def modules_patch_text_def)
qed

theorem patch_idempotent_witness:
  "changed modules_core_only (modules_patch_text modules_core_only)
   \<and> reapplied modules_patch_text modules_core_only = Present
   \<and> contains ''// registerFusionTools, SetFusionRegistration'' ''registerFusionTools''
   \<and> contains ''// registerFusionTools, SetFusionRegistration'' ''SetFusionRegistration''
   \<and> toolsets_patch_text ''// registerFusionTools, SetFusionRegistration'' = Present
   \<and> contains ''// pkg/toolsets/fusion'' ''pkg/toolsets/fusion''
   \<and> modules_patch_text ''// pkg/toolsets/fusion'' = Present"
proof -
  have h1: "changed modules_core_only (modules_patch_text modules_core_only)"
    by (simp add: modules_patch_text_def modules_core_only_def text_eval)
  have h2: "contains ''// registerFusionTools, SetFusionRegistration'' ''registerFusionTools''
            \<and> contains ''// registerFusionTools, SetFusionRegistration'' ''SetFusionRegistration''"
    by simp
  have h3: "contains ''// pkg/toolsets/fusion'' ''pkg/toolsets/fusion''" by simp
  from h1 h2 h3 patch_idempotent [of modules_core_only]
    patch_idempotent [of "''// registerFusionTools, SetFusionRegistration''"]
    patch_idempotent [of "''// pkg/toolsets/fusion''"]
  show ?thesis by blast
qed

section \<open>Where the import line is inserted\<close>

lemma modules_applied_text:
  "modules_patch_text t = Applied t' \<Longrightarrow>
   split_lines t' = rebuild_lines False False (split_lines t)"
  by (auto simp: modules_patch_text_def split_rebuilt split: if_splits)

lemma insert_pair_as_one:
  assumes "i < length ls"
  shows "take i ls @ [ls ! i, x] @ drop (Suc i) ls = take (Suc i) ls @ [x] @ drop (Suc i) ls"
    and "take i ls @ [x, ls ! i] @ drop (Suc i) ls = take i ls @ [x] @ drop i ls"
  using assms by (simp_all add: take_Suc_conv_app_nth Cons_nth_drop_Suc)

text \<open>
  C3, as amended. On a text without the fusion import in which the import pattern is
  found, the first line inside an import block that holds \<^verbatim>\<open>pkg/toolsets/core\<close> or
  \<^verbatim>\<open>pkg/toolsets/helm\<close> decides the place: the new line comes immediately after it when
  it holds \<^verbatim>\<open>pkg/toolsets/core\<close>, immediately before it otherwise.
\<close>

theorem modules_patch_first_anchor:
  assumes "\<not> contains t ''pkg/toolsets/fusion''"
    and "re_search import_pattern t"
    and "inside_import_block (split_lines t) i"
    and "is_anchor (split_lines t ! i)"
    and "\<forall>j<i. \<not> (inside_import_block (split_lines t) j \<and> is_anchor (split_lines t ! j))"
  shows "modules_patch_text t =
           Applied (join_lines
             (take i (split_lines t)
              @ (if contains (split_lines t ! i) ''pkg/toolsets/core''
                 then [split_lines t ! i, rstrip fusion_import]
                 else [rstrip fusion_import, split_lines t ! i])
              @ drop (Suc i) (split_lines t)))"
  using assms(1,2) rebuild_inside_block [OF assms(3,4,5)]
  by (simp add: modules_patch_text_def)

theorem modules_patch_first_anchor_witness:
  "modules_patch_text modules_helm_only =
     Applied (join_lines
       [''import ('', rstrip fusion_import, import_entry ''k/pkg/toolsets/helm'', '')''])"
proof -
  have ls: "split_lines modules_helm_only =
              [''import ('', import_entry ''k/pkg/toolsets/helm'', '')'']"
    by (simp add: modules_helm_only_def text_eval)
  have h1: "\<not> contains modules_helm_only ''pkg/toolsets/fusion''"
    by (simp add: modules_helm_only_def text_eval)
  have h2: "re_search import_pattern modules_helm_only"
    by (simp add: modules_helm_only_def text_eval)
  have h3: "inside_import_block (split_lines modules_helm_only) 1"
    unfolding ls by (simp add: inside_import_block_def text_eval)
  have h4: "is_anchor (split_lines modules_helm_only ! 1)"
    unfolding ls by (simp add: is_anchor_def text_eval)
  have h5: "\<forall>j<1. \<not> (inside_import_block (split_lines modules_helm_only) j
                       \<and> is_anchor (split_lines modules_helm_only ! j))"
    unfolding ls by (simp add: inside_import_block_def)
  have nc: "\<not> contains (import_entry ''k/pkg/toolsets/helm'') ''pkg/toolsets/core''"
    by (simp add: text_eval)
  from modules_patch_first_anchor [OF h1 h2 h3 h4 h5] show ?thesis
    unfolding ls using nc by simp
qed

theorem anchor_order_counterexample:
  "inside_import_block (split_lines modules_helm_then_core) 2
   \<and> contains (split_lines modules_helm_then_core ! 2) ''pkg/toolsets/core''
   \<and> modules_patch_text modules_helm_then_core =
       Applied (join_lines
         [''import ('', rstrip fusion_import, import_entry ''k/pkg/toolsets/helm'',
          import_entry ''k/pkg/toolsets/core'', '')''])
   \<and> modules_patch_text modules_helm_then_core \<noteq>
       Applied (join_lines
         [''import ('', import_entry ''k/pkg/toolsets/helm'',
          import_entry ''k/pkg/toolsets/core'', rstrip fusion_import, '')''])"
proof -
  have ls: "split_lines modules_helm_then_core =
              [''import ('', import_entry ''k/pkg/toolsets/helm'',
               import_entry ''k/pkg/toolsets/core'', '')'']"
    by (simp add: modules_helm_then_core_def text_eval)
  have a: "inside_import_block (split_lines modules_helm_then_core) 2"
    unfolding ls by (simp add: inside_import_block_def text_eval)
  have b: "contains (split_lines modules_helm_then_core ! 2) ''pkg/toolsets/core''"
    unfolding ls by (simp add: text_eval)
  have c: "modules_patch_text modules_helm_then_core =
       Applied (join_lines
         [''import ('', rstrip fusion_import, import_entry ''k/pkg/toolsets/helm'',
          import_entry ''k/pkg/toolsets/core'', '')''])"
    by (simp add: modules_patch_text_def modules_helm_then_core_def text_eval)
  have d: "join_lines
         [''import ('', rstrip fusion_import, import_entry ''k/pkg/toolsets/helm'',
          import_entry ''k/pkg/toolsets/core'', '')''] \<noteq> join_lines
         [''import ('', import_entry ''k/pkg/toolsets/helm'',
          import_entry ''k/pkg/toolsets/core'', rstrip fusion_import, '')'']"
    by (simp add: text_eval)
  from a b c d show ?thesis by simp
qed

section \<open>What the insertion leaves alone\<close>

lemma modules_changed_shape:
  assumes "modules_patch_text t = Applied t'" and "t' \<noteq> t"
  shows "\<exists>i. inside_import_block (split_lines t) i \<and> is_anchor (split_lines t ! i)
             \<and> (split_lines t' = take i (split_lines t)
                                  @ [split_lines t ! i, rstrip fusion_import]
                                  @ drop (Suc i) (split_lines t)
                \<or> split_lines t' = take i (split_lines t)
                                  @ [rstrip fusion_import, split_lines t ! i]
                                  @ drop (Suc i) (split_lines t))"
proof -
  from first_anchor_exists [OF modules_changed_inserted(2) [OF assms]]
  obtain i where i: "inside_import_block (split_lines t) i" "is_anchor (split_lines t ! i)"
    "\<forall>j<i. \<not> (inside_import_block (split_lines t) j \<and> is_anchor (split_lines t ! j))"
    by blast
  from rebuild_inside_block [OF i] modules_applied_text [OF assms(1)]
  have "split_lines t' = take i (split_lines t)
           @ (if contains (split_lines t ! i) ''pkg/toolsets/core''
              then [split_lines t ! i, rstrip fusion_import]
              else [rstrip fusion_import, split_lines t ! i])
           @ drop (Suc i) (split_lines t)"
    by simp
  with i(1,2) show ?thesis by (auto split: if_splits)
qed

lemma inserted_frame:
  assumes "i < length ls"
    and "ls' = take i ls @ [ls ! i, x] @ drop (Suc i) ls
         \<or> ls' = take i ls @ [x, ls ! i] @ drop (Suc i) ls"
  shows "length ls' = Suc (length ls)"
    and "\<forall>j<i. ls' ! j = ls ! j"
    and "\<forall>j. i < j \<and> j < length ls \<longrightarrow> ls' ! Suc j = ls ! j"
proof -
  from assms show "length ls' = Suc (length ls)" by auto
  from assms show "\<forall>j<i. ls' ! j = ls ! j" by (auto simp: nth_append)
  show "\<forall>j. i < j \<and> j < length ls \<longrightarrow> ls' ! Suc j = ls ! j"
  proof (intro allI impI)
    fix j assume j: "i < j \<and> j < length ls"
    then obtain d where d: "j = Suc i + d" using less_iff_Suc_add by auto
    from assms(2) show "ls' ! Suc j = ls ! j"
    proof
      assume "ls' = take i ls @ [ls ! i, x] @ drop (Suc i) ls"
      then show ?thesis using j d assms(1) by (simp add: nth_append)
    next
      assume "ls' = take i ls @ [x, ls ! i] @ drop (Suc i) ls"
      then show ?thesis using j d assms(1) by (simp add: nth_append)
    qed
  qed
qed

text \<open>
  C5. When \<^verbatim>\<open>apply_modules_patch\<close> writes a text that differs from the one it read, the
  lines of the new text are the lines read, in their order and unaltered, with the one
  import line added next to a line that lies inside an import block: the lines before that
  line keep their place, the lines after it move down by one.
\<close>

theorem modules_patch_frame:
  assumes "modules_patch_text t = Applied t'" and "changed t (Applied t')"
  shows "\<exists>i. inside_import_block (split_lines t) i
             \<and> (split_lines t' = take i (split_lines t)
                                  @ [split_lines t ! i, rstrip fusion_import]
                                  @ drop (Suc i) (split_lines t)
                \<or> split_lines t' = take i (split_lines t)
                                  @ [rstrip fusion_import, split_lines t ! i]
                                  @ drop (Suc i) (split_lines t))
             \<and> length (split_lines t') = Suc (length (split_lines t))
             \<and> (\<forall>j<i. split_lines t' ! j = split_lines t ! j)
             \<and> (\<forall>j. i < j \<and> j < length (split_lines t)
                      \<longrightarrow> split_lines t' ! Suc j = split_lines t ! j)"
proof -
  from assms(2) have ne: "t' \<noteq> t" by simp
  from modules_changed_shape [OF assms(1) ne]
  obtain i where i: "inside_import_block (split_lines t) i"
    and shape: "split_lines t' = take i (split_lines t)
                                  @ [split_lines t ! i, rstrip fusion_import]
                                  @ drop (Suc i) (split_lines t)
                \<or> split_lines t' = take i (split_lines t)
                                  @ [rstrip fusion_import, split_lines t ! i]
                                  @ drop (Suc i) (split_lines t)"
    by blast
  from i have lt: "i < length (split_lines t)" by (simp add: inside_import_block_def)
  from inserted_frame [OF lt shape] i shape show ?thesis by blast
qed

theorem modules_patch_frame_witness:
  "\<exists>i. inside_import_block (split_lines modules_core_only) i
      \<and> length (split_lines (join_lines
            [''import ('', import_entry ''k/pkg/toolsets/core'', rstrip fusion_import, '')'']))
          = Suc (length (split_lines modules_core_only))"
proof -
  have h1: "modules_patch_text modules_core_only = Applied (join_lines
            [''import ('', import_entry ''k/pkg/toolsets/core'', rstrip fusion_import, '')''])"
    by (simp add: modules_patch_text_def modules_core_only_def text_eval)
  have h2: "changed modules_core_only (Applied (join_lines
            [''import ('', import_entry ''k/pkg/toolsets/core'', rstrip fusion_import, '')'']))"
    by (simp add: modules_core_only_def text_eval)
  from modules_patch_frame [OF h1 h2] show ?thesis by blast
qed

text \<open>
  C9. One call of \<^verbatim>\<open>apply_modules_patch\<close> adds the import line at most once: on every
  text the lines after the call are the lines before it, or those lines with the one
  import line put in at one place; so there is at most one line more.
\<close>

theorem modules_patch_one_line:
  "length (split_lines (result_text t (modules_patch_text t))) \<le> length (split_lines t) + 1
   \<and> (split_lines (result_text t (modules_patch_text t)) = split_lines t
      \<or> (\<exists>k. k \<le> length (split_lines t)
             \<and> split_lines (result_text t (modules_patch_text t))
                 = take k (split_lines t) @ [rstrip fusion_import] @ drop k (split_lines t)))"
proof (cases "changed t (modules_patch_text t)")
  case False
  then have "result_text t (modules_patch_text t) = t"
    by (cases "modules_patch_text t") auto
  then show ?thesis by simp
next
  case True
  then obtain t' where a: "modules_patch_text t = Applied t'" and ne: "t' \<noteq> t"
    by (cases "modules_patch_text t") auto
  from modules_changed_shape [OF a ne]
  obtain i where i: "inside_import_block (split_lines t) i"
    and shape: "split_lines t' = take i (split_lines t)
                                  @ [split_lines t ! i, rstrip fusion_import]
                                  @ drop (Suc i) (split_lines t)
                \<or> split_lines t' = take i (split_lines t)
                                  @ [rstrip fusion_import, split_lines t ! i]
                                  @ drop (Suc i) (split_lines t)"
    by blast
  from i have lt: "i < length (split_lines t)" by (simp add: inside_import_block_def)
  from shape have "\<exists>k. k \<le> length (split_lines t)
       \<and> split_lines t' = take k (split_lines t) @ [rstrip fusion_import] @ drop k (split_lines t)"
  proof
    assume "split_lines t' = take i (split_lines t)
                @ [split_lines t ! i, rstrip fusion_import] @ drop (Suc i) (split_lines t)"
    then have "split_lines t' = take (Suc i) (split_lines t)
                @ [rstrip fusion_import] @ drop (Suc i) (split_lines t)"
      using insert_pair_as_one(1) [OF lt] by simp
    moreover have "Suc i \<le> length (split_lines t)" using lt by simp
    ultimately show ?thesis by blast
  next
    assume "split_lines t' = take i (split_lines t)
                @ [rstrip fusion_import, split_lines t ! i] @ drop (Suc i) (split_lines t)"
    then have "split_lines t' = take i (split_lines t)
                @ [rstrip fusion_import] @ drop i (split_lines t)"
      using insert_pair_as_one(2) [OF lt] by simp
    moreover have "i \<le> length (split_lines t)" using lt by simp
    ultimately show ?thesis by blast
  qed
  moreover have "length (split_lines t') \<le> length (split_lines t) + 1"
    using inserted_frame(1) [OF lt shape] by simp
  ultimately show ?thesis using a by simp
qed

theorem modules_patch_one_line_witness:
  "length (split_lines (result_text modules_helm_then_core
                          (modules_patch_text modules_helm_then_core))) = 5
   \<and> length (split_lines modules_helm_then_core) = 4"
proof -
  have a: "length (split_lines modules_helm_then_core) = 4"
    by (simp add: modules_helm_then_core_def text_eval)
  have b: "4 < length (split_lines (result_text modules_helm_then_core
                          (modules_patch_text modules_helm_then_core)))"
    by (simp add: modules_patch_text_def modules_helm_then_core_def text_eval)
  from modules_patch_one_line [of modules_helm_then_core] a b show ?thesis by simp
qed

section \<open>The presence test, and the ways the import patch can end\<close>

lemma patch_file_present:
  "files s path = Some t \<Longrightarrow> patch_text t = Present \<Longrightarrow> patch_file path patch_text s = (Inr True, s)"
  by (simp add: patch_file_def ret_def)

lemma patch_file_failed:
  "files s path = Some t \<Longrightarrow> patch_text t = Failed \<Longrightarrow> patch_file path patch_text s = (Inr False, s)"
  by (simp add: patch_file_def ret_def)

lemma patch_file_applied:
  "files s path = Some t \<Longrightarrow> patch_text t = Applied t' \<Longrightarrow>
   patch_file path patch_text s =
     (Inr True, s\<lparr>files := (files s)(path \<mapsto> t'), writes := writes s @ [(path, t')]\<rparr>)"
  by (simp add: patch_file_def ret_def bind_def write_text_def)

lemma patch_file_missing:
  "files s path = None \<Longrightarrow> patch_file path patch_text s = (Inr False, s)"
  by (simp add: patch_file_def ret_def)

text \<open>
  C8. The presence test of each rule is a substring search over the whole text: when the
  marker strings occur anywhere in the file, whatever surrounds them, the patch function
  returns \<^verbatim>\<open>True\<close> and leaves the state as it was, so nothing is written or inserted.
\<close>

theorem presence_is_substring_search:
  "(files s ''pkg/toolsets/toolsets.go'' = Some t
    \<and> t = p1 @ ''registerFusionTools'' @ q1 \<and> t = p2 @ ''SetFusionRegistration'' @ q2
      \<longrightarrow> toolsets_patch_text t = Present \<and> apply_toolsets_patch s = (Inr True, s))
   \<and> (files s ''pkg/mcp/modules.go'' = Some t \<and> t = p @ ''pkg/toolsets/fusion'' @ q
      \<longrightarrow> modules_patch_text t = Present \<and> apply_modules_patch s = (Inr True, s))"
proof (intro conjI impI)
  assume a: "files s ''pkg/toolsets/toolsets.go'' = Some t
    \<and> t = p1 @ ''registerFusionTools'' @ q1 \<and> t = p2 @ ''SetFusionRegistration'' @ q2"
  then have "contains t ''registerFusionTools''" and "contains t ''SetFusionRegistration''"
    unfolding contains_iff by blast+
  then show pr: "toolsets_patch_text t = Present" by (simp add: toolsets_patch_text_def)
  from a pr show "apply_toolsets_patch s = (Inr True, s)"
    unfolding apply_toolsets_patch_def by (intro patch_file_present) simp_all
next
  assume a: "files s ''pkg/mcp/modules.go'' = Some t \<and> t = p @ ''pkg/toolsets/fusion'' @ q"
  then have "contains t ''pkg/toolsets/fusion''"
    unfolding contains_iff by blast
  then show pr: "modules_patch_text t = Present" by (simp add: modules_patch_text_def)
  from a pr show "apply_modules_patch s = (Inr True, s)"
    unfolding apply_modules_patch_def by (intro patch_file_present) simp_all
qed

theorem presence_is_substring_search_witness:
  "apply_toolsets_patch
     \<lparr>files = [''pkg/toolsets/toolsets.go'' \<mapsto> ''// registerFusionTools, SetFusionRegistration''],
      writes = [], commands = []\<rparr>
   = (Inr True,
      \<lparr>files = [''pkg/toolsets/toolsets.go'' \<mapsto> ''// registerFusionTools, SetFusionRegistration''],
       writes = [], commands = []\<rparr>)
   \<and> apply_modules_patch
     \<lparr>files = [''pkg/mcp/modules.go'' \<mapsto> ''var s = '' @ dq # ''pkg/toolsets/fusion'' @ [dq]],
      writes = [], commands = []\<rparr>
   = (Inr True,
      \<lparr>files = [''pkg/mcp/modules.go'' \<mapsto> ''var s = '' @ dq # ''pkg/toolsets/fusion'' @ [dq]],
       writes = [], commands = []\<rparr>)"
proof -
  let ?sa = "\<lparr>files = [''pkg/toolsets/toolsets.go'' \<mapsto> ''// registerFusionTools, SetFusionRegistration''],
      writes = [], commands = []\<rparr>"
  let ?sb = "\<lparr>files = [''pkg/mcp/modules.go'' \<mapsto> ''var s = '' @ dq # ''pkg/toolsets/fusion'' @ [dq]],
      writes = [], commands = []\<rparr>"
  have ha: "files ?sa ''pkg/toolsets/toolsets.go'' = Some ''// registerFusionTools, SetFusionRegistration''
      \<and> ''// registerFusionTools, SetFusionRegistration'' = ''// '' @ ''registerFusionTools'' @ '', SetFusionRegistration''
      \<and> ''// registerFusionTools, SetFusionRegistration'' = ''// registerFusionTools, '' @ ''SetFusionRegistration'' @ []"
    by simp
  have hb: "files ?sb ''pkg/mcp/modules.go'' = Some (''var s = '' @ dq # ''pkg/toolsets/fusion'' @ [dq])
      \<and> ''var s = '' @ dq # ''pkg/toolsets/fusion'' @ [dq] = (''var s = '' @ [dq]) @ ''pkg/toolsets/fusion'' @ [dq]"
    by simp
  from ha presence_is_substring_search [of ?sa "''// registerFusionTools, SetFusionRegistration''"
      "''// ''" "'', SetFusionRegistration''" "''// registerFusionTools, ''" "[]"]
  have a: "apply_toolsets_patch ?sa = (Inr True, ?sa)" by blast
  from hb presence_is_substring_search [of ?sb "''var s = '' @ dq # ''pkg/toolsets/fusion'' @ [dq]"
      _ _ _ _ "''var s = '' @ [dq]" "[dq]"]
  have b: "apply_modules_patch ?sb = (Inr True, ?sb)" by blast
  from a b show ?thesis by blast
qed

text \<open>
  C4, as amended. \<^verbatim>\<open>apply_modules_patch\<close> returns \<^verbatim>\<open>False\<close> on a file it can read exactly
  when the text holds neither the fusion import nor a match of the import pattern, and
  then the state is as before: nothing is written. The pattern asks for the opening of the
  block and its first entry only, not for a line that closes it.
\<close>

theorem modules_patch_failure:
  assumes "files s ''pkg/mcp/modules.go'' = Some t"
  shows "(fst (apply_modules_patch s) = Inr False
            \<longleftrightarrow> \<not> contains t ''pkg/toolsets/fusion'' \<and> \<not> re_search import_pattern t)
         \<and> (fst (apply_modules_patch s) = Inr False \<longrightarrow> apply_modules_patch s = (Inr False, s))"
proof (cases "modules_patch_text t")
  case Failed
  with assms have "apply_modules_patch s = (Inr False, s)"
    unfolding apply_modules_patch_def by (rule patch_file_failed)
  moreover from Failed have "\<not> contains t ''pkg/toolsets/fusion'' \<and> \<not> re_search import_pattern t"
    by (simp add: modules_patch_text_def split: if_splits)
  ultimately show ?thesis by simp
next
  case Present
  with assms have "apply_modules_patch s = (Inr True, s)"
    unfolding apply_modules_patch_def by (rule patch_file_present)
  moreover from Present have "\<not> (\<not> contains t ''pkg/toolsets/fusion'' \<and> \<not> re_search import_pattern t)"
    by (simp add: modules_patch_text_def split: if_splits)
  ultimately show ?thesis by simp
next
  case (Applied t')
  with assms have "fst (apply_modules_patch s) = Inr True"
    unfolding apply_modules_patch_def by (simp add: patch_file_applied)
  moreover from Applied have "\<not> (\<not> contains t ''pkg/toolsets/fusion'' \<and> \<not> re_search import_pattern t)"
    by (simp add: modules_patch_text_def split: if_splits)
  ultimately show ?thesis by simp
qed

theorem modules_patch_failure_witness:
  "apply_modules_patch \<lparr>files = [''pkg/mcp/modules.go'' \<mapsto> ''import (''], writes = [], commands = []\<rparr>
   = (Inr False, \<lparr>files = [''pkg/mcp/modules.go'' \<mapsto> ''import (''], writes = [], commands = []\<rparr>)"
proof -
  let ?s = "\<lparr>files = [''pkg/mcp/modules.go'' \<mapsto> ''import (''], writes = [], commands = []\<rparr>"
  have h: "files ?s ''pkg/mcp/modules.go'' = Some ''import (''" by simp
  have n: "\<not> contains ''import ('' ''pkg/toolsets/fusion'' \<and> \<not> re_search import_pattern ''import (''"
    by (simp add: text_eval)
  from modules_patch_failure [OF h] n show ?thesis by blast
qed

theorem unclosed_block_counterexample:
  "contains modules_unclosed ''import (''
   \<and> \<not> contains modules_unclosed '')''
   \<and> apply_modules_patch \<lparr>files = [''pkg/mcp/modules.go'' \<mapsto> modules_unclosed], writes = [], commands = []\<rparr>
     = (Inr True,
        \<lparr>files = [''pkg/mcp/modules.go'' \<mapsto>
                    join_lines [''import ('', import_entry ''k/pkg/toolsets/core'', rstrip fusion_import, []]],
         writes = [(''pkg/mcp/modules.go'',
                    join_lines [''import ('', import_entry ''k/pkg/toolsets/core'', rstrip fusion_import, []])],
         commands = []\<rparr>)"
proof -
  have a: "contains modules_unclosed ''import (''" "\<not> contains modules_unclosed '')''"
    by (simp_all add: modules_unclosed_def text_eval)
  have b: "modules_patch_text modules_unclosed =
      Applied (join_lines [''import ('', import_entry ''k/pkg/toolsets/core'', rstrip fusion_import, []])"
    by (simp add: modules_patch_text_def modules_unclosed_def text_eval)
  have c: "files \<lparr>files = [''pkg/mcp/modules.go'' \<mapsto> modules_unclosed], writes = [], commands = []\<rparr>
             ''pkg/mcp/modules.go'' = Some modules_unclosed"
    by simp
  from patch_file_applied [where patch_text = modules_patch_text, OF c b] a show ?thesis
    by (simp add: apply_modules_patch_def)
qed

lemma config_only_applied:
  "modules_patch_text modules_config_only = Applied modules_config_only"
  by (simp add: modules_patch_text_def modules_config_only_def text_eval)

text \<open>
  C2. On an import block with neither anchor the function does not fail: the loop adds
  nothing, the text read is written back as it is and the function returns \<^verbatim>\<open>True\<close>.
\<close>

theorem no_anchor_reported_as_success:
  "\<not> contains modules_config_only ''pkg/toolsets/core''
   \<and> \<not> contains modules_config_only ''pkg/toolsets/helm''
   \<and> modules_patch_text modules_config_only = Applied modules_config_only
   \<and> apply_modules_patch \<lparr>files = [''pkg/mcp/modules.go'' \<mapsto> modules_config_only], writes = [], commands = []\<rparr>
     = (Inr True,
        \<lparr>files = [''pkg/mcp/modules.go'' \<mapsto> modules_config_only],
         writes = [(''pkg/mcp/modules.go'', modules_config_only)],
         commands = []\<rparr>)"
proof -
  have a: "\<not> contains modules_config_only ''pkg/toolsets/core''"
    "\<not> contains modules_config_only ''pkg/toolsets/helm''"
    by (simp_all add: modules_config_only_def text_eval)
  have c: "files \<lparr>files = [''pkg/mcp/modules.go'' \<mapsto> modules_config_only], writes = [], commands = []\<rparr>
             ''pkg/mcp/modules.go'' = Some modules_config_only"
    by simp
  from patch_file_applied [where patch_text = modules_patch_text, OF c config_only_applied]
    a config_only_applied
  show ?thesis
    by (simp add: apply_modules_patch_def)
qed

text \<open>
  On such a text a second call goes the same way: it writes the same text once more
  instead of taking the path of the import already present.
\<close>

lemma no_anchor_written_again:
  "reapplied modules_patch_text modules_config_only = Applied modules_config_only"
  by (simp add: reapplied_def config_only_applied)

section \<open>The stages of the script\<close>

lemmas action_defs = bind_def ret_def raise_def run_command_def Let_def

lemma guard_run:
  "guard stage rest s =
     (case stage s of
        (Inl e, s') \<Rightarrow> (Inl e, s')
      | (Inr ok, s') \<Rightarrow> if ok then rest s' else (Inl (SystemExit 1), s'))"
  by (simp add: guard_def bind_def raise_def split: prod.splits sum.splits)

lemma check_git_clean_run:
  "check_git_clean w force s =
     (if returncode (git_status_pre w) \<noteq> 0 then Inl CalledProcessError
      else Inr (strip (stdout (git_status_pre w)) = [] \<or> force),
      s\<lparr>commands := commands s @ [''git status --porcelain'']\<rparr>)"
  by (simp add: check_git_clean_def action_defs)

lemma check_remotes_run:
  "check_remotes w s =
     (if returncode (git_remote_v w) \<noteq> 0
        then (Inl CalledProcessError, s\<lparr>commands := commands s @ [''git remote -v'']\<rparr>)
      else if \<not> (contains (stdout (git_remote_v w)) ''origin''
                  \<and> contains (stdout (git_remote_v w)) ''sandeepbazar/ibm-fusion-mcp-server'')
        then (Inr False, s\<lparr>commands := commands s @ [''git remote -v'']\<rparr>)
      else if contains (stdout (git_remote_v w)) ''upstream''
              \<and> contains (stdout (git_remote_v w)) ''containers/kubernetes-mcp-server''
        then (Inr True, s\<lparr>commands := commands s @ [''git remote -v'']\<rparr>)
      else (if returncode (git_remote_add w) \<noteq> 0 then Inl CalledProcessError else Inr True,
            s\<lparr>commands := commands s @ [''git remote -v'',
                 ''git remote add upstream https://github.com/containers/kubernetes-mcp-server.git'']\<rparr>))"
  by (simp add: check_remotes_def action_defs)

lemma sync_upstream_run:
  "sync_upstream w s =
     (if returncode (git_fetch w) \<noteq> 0
        then (Inl CalledProcessError, s\<lparr>commands := commands s @ [''git fetch upstream'']\<rparr>)
      else if returncode (git_checkout w) \<noteq> 0
        then (Inl CalledProcessError,
              s\<lparr>commands := commands s @ [''git fetch upstream'', ''git checkout main'']\<rparr>)
      else (if returncode (git_merge w) \<noteq> 0 then Inl (SystemExit 1) else Inr (),
            s\<lparr>commands := commands s
                  @ [''git fetch upstream'', ''git checkout main'', ''git merge upstream/main'']\<rparr>))"
  by (simp add: sync_upstream_def action_defs)

lemma run_tests_run:
  "run_tests w s =
     (Inr (returncode (go_test w) = 0), s\<lparr>commands := commands s @ [''go test ./...'']\<rparr>)"
  by (simp add: run_tests_def action_defs)

lemma commit_and_push_run:
  "commit_and_push w s =
     (if returncode (git_status_post w) \<noteq> 0
        then (Inl CalledProcessError, s\<lparr>commands := commands s @ [''git status --porcelain'']\<rparr>)
      else if strip (stdout (git_status_post w)) = []
        then (Inr True, s\<lparr>commands := commands s @ [''git status --porcelain'']\<rparr>)
      else if returncode (git_add w) \<noteq> 0
        then (Inl CalledProcessError,
              s\<lparr>commands := commands s @ [''git status --porcelain'', ''git add -A'']\<rparr>)
      else if returncode (git_commit w) \<noteq> 0
        then (Inl CalledProcessError,
              s\<lparr>commands := commands s @ [''git status --porcelain'', ''git add -A'',
                                           ''git commit -m '' @ dq # commit_msg @ [dq]]\<rparr>)
      else (Inr (returncode (git_push w) = 0),
            s\<lparr>commands := commands s @ [''git status --porcelain'', ''git add -A'',
                                         ''git commit -m '' @ dq # commit_msg @ [dq],
                                         ''git push origin main'']\<rparr>))"
  by (simp add: commit_and_push_def action_defs)

lemma patch_file_run:
  "patch_file path patch_text s =
     (case files s path of
        None \<Rightarrow> (Inr False, s)
      | Some t \<Rightarrow>
          (case patch_text t of
             Failed \<Rightarrow> (Inr False, s)
           | Present \<Rightarrow> (Inr True, s)
           | Applied t' \<Rightarrow>
               (Inr True, s\<lparr>files := (files s)(path \<mapsto> t'), writes := writes s @ [(path, t')]\<rparr>)))"
  by (simp add: patch_file_def ret_def bind_def write_text_def split: option.splits outcome.splits)

subsection \<open>The stages before the patches run early commands only\<close>

lemma ran_only_append:
  assumes "ran_only s l1 s1" and "ran_only s1 l2 s2"
  shows "ran_only s (l1 @ l2) s2"
proof -
  from assms obtain cs1 cs2 where
    c1: "commands s1 = commands s @ cs1" "subseq cs1 l1" and
    c2: "commands s2 = commands s1 @ cs2" "subseq cs2 l2"
    by (auto simp: ran_only_def)
  have "commands s2 = commands s @ (cs1 @ cs2)" using c1 c2 by simp
  moreover have "subseq (cs1 @ cs2) (l1 @ l2)"
    using c1(2) c2(2) by (rule list_emb_append_mono)
  ultimately show ?thesis using assms by (auto simp: ran_only_def)
qed

lemma ran_only_more: "ran_only s l1 s1 \<Longrightarrow> ran_only s (l1 @ l2) s1"
  by (auto simp: ran_only_def)

lemma ran_onlyI: "subseq cs l \<Longrightarrow> ran_only s l (s\<lparr>commands := commands s @ cs\<rparr>)"
  by (auto simp: ran_only_def)

lemma clean_step:
  assumes "guard (check_git_clean w f) k s = (r, s')"
  shows "(exit_code r = 1 \<and> ran_only s [''git status --porcelain''] s')
         \<or> (\<exists>s1. ran_only s [''git status --porcelain''] s1 \<and> k s1 = (r, s'))"
proof -
  let ?a = "s\<lparr>commands := commands s @ [''git status --porcelain'']\<rparr>"
  have ea: "ran_only s [''git status --porcelain''] ?a"
    by (rule ran_onlyI) simp
  from assms consider "exit_code r = 1 \<and> s' = ?a" | "k ?a = (r, s')"
    by (auto simp: guard_run check_git_clean_run split: if_splits)
  then show ?thesis using ea by cases auto
qed

lemma remotes_step:
  assumes "guard (check_remotes w) k s = (r, s')"
  shows "(exit_code r = 1 \<and> ran_only s [''git remote -v'',
            ''git remote add upstream https://github.com/containers/kubernetes-mcp-server.git''] s')
         \<or> (\<exists>s1. ran_only s [''git remote -v'',
            ''git remote add upstream https://github.com/containers/kubernetes-mcp-server.git''] s1
               \<and> k s1 = (r, s'))"
proof -
  let ?l = "[''git remote -v'',
            ''git remote add upstream https://github.com/containers/kubernetes-mcp-server.git'']"
  let ?a = "s\<lparr>commands := commands s @ [''git remote -v'']\<rparr>"
  let ?b = "s\<lparr>commands := commands s @ ?l\<rparr>"
  have ea: "ran_only s ?l ?a" and eb: "ran_only s ?l ?b"
    by (rule ran_onlyI, simp)+
  from assms consider "exit_code r = 1 \<and> (s' = ?a \<or> s' = ?b)" | "k ?a = (r, s')" | "k ?b = (r, s')"
    by (auto simp: guard_run check_remotes_run split: if_splits)
  then show ?thesis using ea eb by cases auto
qed

lemma sync_step:
  assumes "bind (sync_upstream w) (\<lambda>_. k) s = (r, s')"
  shows "(exit_code r = 1
            \<and> ran_only s [''git fetch upstream'', ''git checkout main'', ''git merge upstream/main''] s')
         \<or> (\<exists>s1. ran_only s [''git fetch upstream'', ''git checkout main'', ''git merge upstream/main''] s1
               \<and> k s1 = (r, s'))"
proof -
  let ?l = "[''git fetch upstream'', ''git checkout main'', ''git merge upstream/main'']"
  let ?a = "s\<lparr>commands := commands s @ [''git fetch upstream'']\<rparr>"
  let ?b = "s\<lparr>commands := commands s @ [''git fetch upstream'', ''git checkout main'']\<rparr>"
  let ?c = "s\<lparr>commands := commands s @ ?l\<rparr>"
  have e: "ran_only s ?l ?a" "ran_only s ?l ?b" "ran_only s ?l ?c"
    by (rule ran_onlyI, simp)+
  from assms consider "exit_code r = 1 \<and> (s' = ?a \<or> s' = ?b \<or> s' = ?c)" | "k ?c = (r, s')"
    by (auto simp: bind_def sync_upstream_run split: if_splits)
  then show ?thesis using e by cases auto
qed

lemma patches_halt_on_missing_file:
  assumes "files s ''pkg/toolsets/toolsets.go'' = None \<or> files s ''pkg/mcp/modules.go'' = None"
    and "guard apply_toolsets_patch (guard apply_modules_patch rest) s = (r, s')"
  shows "exit_code r = 1 \<and> commands s' = commands s
         \<and> (files s ''pkg/toolsets/toolsets.go'' = None \<longrightarrow> s' = s)
         \<and> (files s ''pkg/mcp/modules.go'' = None \<longrightarrow>
              files s' ''pkg/mcp/modules.go'' = None
              \<and> (writes s' = writes s
                 \<or> (\<exists>c. writes s' = writes s @ [(''pkg/toolsets/toolsets.go'', c)])))"
  using assms
  by (auto simp: guard_run patch_file_run apply_toolsets_patch_def apply_modules_patch_def
           split: option.splits outcome.splits)

lemma main_halts_on_missing_file:
  assumes "worktree w ''pkg/toolsets/toolsets.go'' = None \<or> worktree w ''pkg/mcp/modules.go'' = None"
    and "main w argv (initial w) = (r, s')"
  shows "exit_code r = 1 \<and> subseq (commands s') early_commands
         \<and> (worktree w ''pkg/toolsets/toolsets.go'' = None \<longrightarrow> writes s' = [])
         \<and> (worktree w ''pkg/mcp/modules.go'' = None \<longrightarrow>
              files s' ''pkg/mcp/modules.go'' = None
              \<and> ''pkg/mcp/modules.go'' \<notin> fst ` set (writes s'))"
proof -
  let ?G = "exit_code r = 1 \<and> subseq (commands s') early_commands
         \<and> (worktree w ''pkg/toolsets/toolsets.go'' = None \<longrightarrow> writes s' = [])
         \<and> (worktree w ''pkg/mcp/modules.go'' = None \<longrightarrow>
              files s' ''pkg/mcp/modules.go'' = None
              \<and> ''pkg/mcp/modules.go'' \<notin> fst ` set (writes s'))"
  let ?l1 = "[''git status --porcelain'']"
  let ?l2 = "[''git remote -v'',
            ''git remote add upstream https://github.com/containers/kubernetes-mcp-server.git'']"
  let ?l3 = "[''git fetch upstream'', ''git checkout main'', ''git merge upstream/main'']"
  let ?tail = "guard apply_toolsets_patch (guard apply_modules_patch
                 (guard (run_tests w) (guard (commit_and_push w) (ret ()))))"
  have all: "?l1 @ ?l2 @ ?l3 = early_commands" by (simp add: early_commands_def)
  have early_halt: "\<And>s1. exit_code r = 1 \<and> ran_only (initial w) early_commands s1 \<Longrightarrow> s1 = s' \<Longrightarrow> ?G"
    using assms(1) by (auto simp: ran_only_def initial_def)
  have at_patches: "\<And>s3. ran_only (initial w) early_commands s3 \<Longrightarrow> ?tail s3 = (r, s') \<Longrightarrow> ?G"
  proof -
    fix s3 assume e: "ran_only (initial w) early_commands s3" and t: "?tail s3 = (r, s')"
    from e have f: "files s3 = worktree w" and wr: "writes s3 = []"
      and c: "subseq (commands s3) early_commands"
      by (auto simp: ran_only_def initial_def)
    from assms(1) f have
      "files s3 ''pkg/toolsets/toolsets.go'' = None \<or> files s3 ''pkg/mcp/modules.go'' = None"
      by simp
    from patches_halt_on_missing_file [OF this t] f wr c show ?G by auto
  qed
  from assms(2) have m: "guard (check_git_clean w (''--force'' \<in> set argv))
      (guard (check_remotes w) (bind (sync_upstream w) (\<lambda>_. ?tail))) (initial w) = (r, s')"
    by (simp add: main_def)
  from clean_step [OF m] show ?thesis
  proof
    assume "exit_code r = 1 \<and> ran_only (initial w) ?l1 s'"
    then have "exit_code r = 1 \<and> ran_only (initial w) (?l1 @ ?l2 @ ?l3) s'"
      by (blast intro: ran_only_more)
    then show ?thesis unfolding all by (rule early_halt) simp
  next
    assume "\<exists>s1. ran_only (initial w) ?l1 s1
               \<and> guard (check_remotes w) (bind (sync_upstream w) (\<lambda>_. ?tail)) s1 = (r, s')"
    then obtain s1 where e1: "ran_only (initial w) ?l1 s1"
      and m1: "guard (check_remotes w) (bind (sync_upstream w) (\<lambda>_. ?tail)) s1 = (r, s')"
      by blast
    from remotes_step [OF m1] show ?thesis
    proof
      assume h: "exit_code r = 1 \<and> ran_only s1 ?l2 s'"
      then have "ran_only s1 (?l2 @ ?l3) s'" by (blast intro: ran_only_more)
      with e1 have "ran_only (initial w) (?l1 @ ?l2 @ ?l3) s'" by (rule ran_only_append)
      with h have "exit_code r = 1 \<and> ran_only (initial w) early_commands s'"
        unfolding all by simp
      then show ?thesis by (rule early_halt) simp
    next
      assume "\<exists>s2. ran_only s1 ?l2 s2 \<and> bind (sync_upstream w) (\<lambda>_. ?tail) s2 = (r, s')"
      then obtain s2 where e2: "ran_only s1 ?l2 s2"
        and m2: "bind (sync_upstream w) (\<lambda>_. ?tail) s2 = (r, s')"
        by blast
      from sync_step [OF m2] show ?thesis
      proof
        assume h: "exit_code r = 1 \<and> ran_only s2 ?l3 s'"
        with e2 have "ran_only s1 (?l2 @ ?l3) s'" by (blast intro: ran_only_append)
        with e1 have "ran_only (initial w) (?l1 @ ?l2 @ ?l3) s'" by (rule ran_only_append)
        with h have "exit_code r = 1 \<and> ran_only (initial w) early_commands s'"
          unfolding all by simp
        then show ?thesis by (rule early_halt) simp
      next
        assume "\<exists>s3. ran_only s2 ?l3 s3 \<and> ?tail s3 = (r, s')"
        then obtain s3 where e3: "ran_only s2 ?l3 s3" and m3: "?tail s3 = (r, s')" by blast
        from e2 e3 have "ran_only s1 (?l2 @ ?l3) s3" by (rule ran_only_append)
        with e1 have "ran_only (initial w) (?l1 @ ?l2 @ ?l3) s3" by (rule ran_only_append)
        then have "ran_only (initial w) early_commands s3" unfolding all .
        then show ?thesis using m3 by (rule at_patches)
      qed
    qed
  qed
qed

lemma not_in_subseq: "subseq cs l \<Longrightarrow> c \<notin> set l \<Longrightarrow> c \<notin> set cs"
  by (auto elim: list_emb_set)

lemma late_commands_not_early:
  "''go test ./...'' \<notin> set early_commands" "''git add -A'' \<notin> set early_commands"
  "''git commit -m '' @ dq # commit_msg @ [dq] \<notin> set early_commands"
  "''git push origin main'' \<notin> set early_commands"
  by (simp_all add: early_commands_def)

text \<open>
  C10. When the target file of a patch function does not exist, the function returns
  \<^verbatim>\<open>False\<close> and leaves the state as it was: no file is created or written. The script then
  ends with exit code 1 having run commands of the stages before the patches only, each at
  most once and in their order: neither the tests nor the publish stage have begun, and
  the missing file is still missing.
\<close>

theorem missing_target_file:
  "(files s ''pkg/toolsets/toolsets.go'' = None \<longrightarrow> apply_toolsets_patch s = (Inr False, s))
   \<and> (files s ''pkg/mcp/modules.go'' = None \<longrightarrow> apply_modules_patch s = (Inr False, s))
   \<and> (worktree w ''pkg/toolsets/toolsets.go'' = None \<or> worktree w ''pkg/mcp/modules.go'' = None
        \<longrightarrow> fst (script w argv) = 1
            \<and> subseq (commands (snd (script w argv)))
                 [''git status --porcelain'', ''git remote -v'',
                  ''git remote add upstream https://github.com/containers/kubernetes-mcp-server.git'',
                  ''git fetch upstream'', ''git checkout main'', ''git merge upstream/main'']
            \<and> ''go test ./...'' \<notin> set (commands (snd (script w argv)))
            \<and> ''git add -A'' \<notin> set (commands (snd (script w argv)))
            \<and> ''git commit -m '' @ dq # commit_msg @ [dq] \<notin> set (commands (snd (script w argv)))
            \<and> ''git push origin main'' \<notin> set (commands (snd (script w argv)))
            \<and> (worktree w ''pkg/toolsets/toolsets.go'' = None
                  \<longrightarrow> writes (snd (script w argv)) = [])
            \<and> (worktree w ''pkg/mcp/modules.go'' = None
                  \<longrightarrow> files (snd (script w argv)) ''pkg/mcp/modules.go'' = None
                      \<and> ''pkg/mcp/modules.go'' \<notin> fst ` set (writes (snd (script w argv)))))"
proof (intro conjI impI)
  assume "files s ''pkg/toolsets/toolsets.go'' = None"
  then show "apply_toolsets_patch s = (Inr False, s)"
    by (simp add: apply_toolsets_patch_def patch_file_missing)
next
  assume "files s ''pkg/mcp/modules.go'' = None"
  then show "apply_modules_patch s = (Inr False, s)"
    by (simp add: apply_modules_patch_def patch_file_missing)
next
  assume miss: "worktree w ''pkg/toolsets/toolsets.go'' = None
                \<or> worktree w ''pkg/mcp/modules.go'' = None"
  obtain r s' where m: "main w argv (initial w) = (r, s')"
    by (cases "main w argv (initial w)")
  then have sc: "script w argv = (exit_code r, s')" by (simp add: script_def)
  note h = main_halts_on_missing_file [OF miss m]
  from h have sub: "subseq (commands s') early_commands" by simp
  from h sc show "fst (script w argv) = 1" by simp
  from sub sc show "subseq (commands (snd (script w argv)))
                 [''git status --porcelain'', ''git remote -v'',
                  ''git remote add upstream https://github.com/containers/kubernetes-mcp-server.git'',
                  ''git fetch upstream'', ''git checkout main'', ''git merge upstream/main'']"
    by (simp add: early_commands_def)
  from sc not_in_subseq [OF sub] late_commands_not_early show
    "''go test ./...'' \<notin> set (commands (snd (script w argv)))"
    "''git add -A'' \<notin> set (commands (snd (script w argv)))"
    "''git commit -m '' @ dq # commit_msg @ [dq] \<notin> set (commands (snd (script w argv)))"
    "''git push origin main'' \<notin> set (commands (snd (script w argv)))"
    by simp_all
  {
    assume "worktree w ''pkg/toolsets/toolsets.go'' = None"
    with h sc show "writes (snd (script w argv)) = []" by simp
  }
  {
    assume "worktree w ''pkg/mcp/modules.go'' = None"
    with h sc show "files (snd (script w argv)) ''pkg/mcp/modules.go'' = None"
      "''pkg/mcp/modules.go'' \<notin> fst ` set (writes (snd (script w argv)))"
      by simp_all
  }
qed

theorem missing_target_file_witness:
  "apply_toolsets_patch \<lparr>files = Map.empty, writes = [], commands = []\<rparr>
     = (Inr False, \<lparr>files = Map.empty, writes = [], commands = []\<rparr>)
   \<and> apply_modules_patch \<lparr>files = Map.empty, writes = [], commands = []\<rparr>
     = (Inr False, \<lparr>files = Map.empty, writes = [], commands = []\<rparr>)
   \<and> fst (script (quiet_world\<lparr>worktree := [''pkg/toolsets/toolsets.go'' \<mapsto> ''package toolsets'']\<rparr>) []) = 1
   \<and> ''go test ./...'' \<notin> set (commands (snd (script
         (quiet_world\<lparr>worktree := [''pkg/toolsets/toolsets.go'' \<mapsto> ''package toolsets'']\<rparr>) [])))
   \<and> files (snd (script
         (quiet_world\<lparr>worktree := [''pkg/toolsets/toolsets.go'' \<mapsto> ''package toolsets'']\<rparr>) []))
         ''pkg/mcp/modules.go'' = None"
proof -
  let ?s = "\<lparr>files = Map.empty, writes = [], commands = []\<rparr>"
  let ?w = "quiet_world\<lparr>worktree := [''pkg/toolsets/toolsets.go'' \<mapsto> ''package toolsets'']\<rparr>"
  have h1: "files ?s ''pkg/toolsets/toolsets.go'' = None" "files ?s ''pkg/mcp/modules.go'' = None"
    by simp_all
  have h2: "worktree ?w ''pkg/mcp/modules.go'' = None" by simp
  from h1 h2 missing_target_file [of ?s ?w "[]"] show ?thesis by blast
qed

subsection \<open>A run in which the import is not added\<close>

lemma toolsets_fresh_applied:
  "toolsets_patch_text ''package toolsets'' = Applied (''package toolsets'' @ [nl] @ fusion_code)"
  by (simp add: toolsets_patch_text_def endswith_nl_def nl_def)

lemma no_anchor_world_run:
  "main no_anchor_world [] (initial no_anchor_world) =
     (Inr (),
      \<lparr>files = [''pkg/toolsets/toolsets.go'' \<mapsto> ''package toolsets'' @ [nl] @ fusion_code,
                ''pkg/mcp/modules.go'' \<mapsto> modules_config_only],
       writes = [(''pkg/toolsets/toolsets.go'', ''package toolsets'' @ [nl] @ fusion_code),
                 (''pkg/mcp/modules.go'', modules_config_only)],
       commands = [''git status --porcelain'', ''git remote -v'', ''git fetch upstream'',
                   ''git checkout main'', ''git merge upstream/main'', ''go test ./...'',
                   ''git status --porcelain'', ''git add -A'',
                   ''git commit -m '' @ dq # commit_msg @ [dq], ''git push origin main'']\<rparr>)"
proof -
  have r: "contains (stdout (git_remote_v no_anchor_world)) ''origin''"
    "contains (stdout (git_remote_v no_anchor_world)) ''sandeepbazar/ibm-fusion-mcp-server''"
    "contains (stdout (git_remote_v no_anchor_world)) ''upstream''"
    "contains (stdout (git_remote_v no_anchor_world)) ''containers/kubernetes-mcp-server''"
    by (simp_all add: no_anchor_world_def nl_def)
  have st: "strip (stdout (git_status_pre no_anchor_world)) = []"
    "strip (stdout (git_status_post no_anchor_world)) \<noteq> []"
    by (simp_all add: no_anchor_world_def ok_result_def text_eval)
  have rc: "returncode (git_status_pre no_anchor_world) = 0"
    "returncode (git_remote_v no_anchor_world) = 0"
    "returncode (git_fetch no_anchor_world) = 0"
    "returncode (git_checkout no_anchor_world) = 0"
    "returncode (git_merge no_anchor_world) = 0"
    "returncode (go_test no_anchor_world) = 0"
    "returncode (git_status_post no_anchor_world) = 0"
    "returncode (git_add no_anchor_world) = 0"
    "returncode (git_commit no_anchor_world) = 0"
    "returncode (git_push no_anchor_world) = 0"
    by (simp_all add: no_anchor_world_def ok_result_def)
  have wt: "worktree no_anchor_world =
              [''pkg/toolsets/toolsets.go'' \<mapsto> ''package toolsets'',
               ''pkg/mcp/modules.go'' \<mapsto> modules_config_only]"
    by (simp add: no_anchor_world_def)
  show ?thesis
    by (simp add: main_def initial_def guard_run check_git_clean_run check_remotes_run
          sync_upstream_run run_tests_run commit_and_push_run patch_file_run
          apply_toolsets_patch_def apply_modules_patch_def bind_def ret_def
          r st rc wt toolsets_fresh_applied config_only_applied fun_upd_twist)
qed

text \<open>
  C7. The exit code is not 1 on every patch-structure failure: when the import block of
  \<^verbatim>\<open>modules.go\<close> has neither anchor and every other stage succeeds, the script runs the
  tests, commits, pushes and ends with exit code 0, and \<^verbatim>\<open>modules.go\<close> is left without
  the fusion import.
\<close>

theorem no_anchor_exit_zero:
  "fst (script no_anchor_world []) = 0
   \<and> ''git push origin main'' \<in> set (commands (snd (script no_anchor_world [])))
   \<and> files (snd (script no_anchor_world [])) ''pkg/mcp/modules.go'' = Some modules_config_only
   \<and> \<not> contains modules_config_only ''pkg/toolsets/fusion''
   \<and> \<not> contains modules_config_only ''pkg/toolsets/core''
   \<and> \<not> contains modules_config_only ''pkg/toolsets/helm''"
proof -
  have a: "\<not> contains modules_config_only ''pkg/toolsets/fusion''"
    "\<not> contains modules_config_only ''pkg/toolsets/core''"
    "\<not> contains modules_config_only ''pkg/toolsets/helm''"
    by (simp_all add: modules_config_only_def text_eval)
  show ?thesis
    using a by (simp add: script_def no_anchor_world_run)
qed

text \<open>
  The test of the remotes looks for the name \<^verbatim>\<open>origin\<close> and for the expected repository
  anywhere in the output, not on one line: it passes when \<^verbatim>\<open>origin\<close> points elsewhere and
  some other remote points to the expected repository.
\<close>

lemma stray_origin_accepted:
  "check_remotes (w\<lparr>git_remote_v := \<lparr>returncode = 0, stdout = stray_origin_remotes\<rparr>\<rparr>) s =
     (Inr True, s\<lparr>commands := commands s @ [''git remote -v'']\<rparr>)"
proof -
  have "contains stray_origin_remotes ''origin''"
    "contains stray_origin_remotes ''sandeepbazar/ibm-fusion-mcp-server''"
    "contains stray_origin_remotes ''upstream''"
    "contains stray_origin_remotes ''containers/kubernetes-mcp-server''"
    by (simp_all add: stray_origin_remotes_def nl_def)
  then show ?thesis by (simp add: check_remotes_run)
qed

end
